theory Spec2Isabelle
  imports Complex_Main "HOL-Library.Sublist"
begin

section \<open>Errors\<close>

text \<open>
  The exceptions the modelled code can raise.  A function that can raise returns
  \<open>error + 'a\<close>, with \<open>Inl\<close> the exception.  Nothing in the program catches
  them, so an exception ends the run and the state at the raise is dropped.
\<close>

datatype error = ValueError | IndexError | AttributeError

section \<open>Python tuple access\<close>

text \<open>
  \<open>tuple.index(v)\<close>: the position of the first element equal to \<open>v\<close>,
  \<open>ValueError\<close> when there is none.
\<close>

fun py_index_from :: "'a list \<Rightarrow> 'a \<Rightarrow> int \<Rightarrow> error + int" where
  "py_index_from [] v i = Inl ValueError"
| "py_index_from (a # as) v i = (if a = v then Inr i else py_index_from as v (i + 1))"

definition py_index :: "'a list \<Rightarrow> 'a \<Rightarrow> error + int" where
  "py_index xs v = py_index_from xs v 0"

text \<open>
  \<open>t[i]\<close> for a Python integer \<open>i\<close>: a negative index counts from the end,
  an index outside \<open>[-len, len)\<close> raises \<open>IndexError\<close>.
\<close>

definition py_nth :: "'a list \<Rightarrow> int \<Rightarrow> error + 'a" where
  "py_nth xs i =
     (if 0 \<le> i \<and> i < int (length xs) then Inr (xs ! nat i)
      else if - int (length xs) \<le> i \<and> i < 0 then Inr (xs ! nat (int (length xs) + i))
      else Inl IndexError)"

section \<open>runner.py\<close>

text \<open>
  The runner is a dictionary with the keys \<open>x\<close>, \<open>y\<close> and \<open>orientation\<close>;
  the orientation is a Python string, so it can hold any text.
\<close>

record runner =
  x :: int
  y :: int
  orientation :: string

definition create_runner :: "int \<Rightarrow> int \<Rightarrow> string \<Rightarrow> runner" where
  "create_runner x0 y0 orientation0 = \<lparr>x = x0, y = y0, orientation = orientation0\<rparr>"

definition get_x :: "runner \<Rightarrow> int" where
  "get_x r = x r"

definition get_y :: "runner \<Rightarrow> int" where
  "get_y r = y r"

definition get_orientation :: "runner \<Rightarrow> string" where
  "get_orientation r = orientation r"

definition orientations :: "string list" where
  "orientations = [''N'', ''E'', ''S'', ''W'']"

text \<open>
  \<open>orientation_options\<close>: (orientation to the left, current, orientation to the right).
  The left one is \<open>orientations[index - 1]\<close>, which for index 0 is the Python index
  \<open>-1\<close>, the last entry.
\<close>

definition orientation_options :: "runner \<Rightarrow> error + (string \<times> string \<times> string)" where
  "orientation_options r =
     (let current_orientation = get_orientation r in
      case py_index orientations current_orientation of
        Inl e \<Rightarrow> Inl e
      | Inr current_orientation_index \<Rightarrow>
          (case py_nth orientations (current_orientation_index - 1) of
             Inl e \<Rightarrow> Inl e
           | Inr left \<Rightarrow>
               (case py_nth orientations
                       ((current_orientation_index + 1) mod int (length orientations)) of
                  Inl e \<Rightarrow> Inl e
                | Inr right \<Rightarrow> Inr (left, current_orientation, right))))"

text \<open>
  \<open>turn\<close> updates the runner in place and returns it; any direction other than
  \<open>Left\<close> and \<open>Right\<close> leaves the orientation as it is.
\<close>

definition turn :: "runner \<Rightarrow> string \<Rightarrow> error + runner" where
  "turn r direction =
     (case orientation_options r of
        Inl e \<Rightarrow> Inl e
      | Inr (left, current, right) \<Rightarrow>
          (let r1 = (if direction = ''Left'' then r\<lparr>orientation := left\<rparr> else r);
               r2 = (if direction = ''Right'' then r1\<lparr>orientation := right\<rparr> else r1)
           in Inr r2))"

text \<open>
  \<open>forward\<close> updates the position in place; an orientation that is none of the four
  letters moves nothing.
\<close>

definition forward :: "runner \<Rightarrow> runner" where
  "forward r =
     (let orientation0 = get_orientation r in
      if orientation0 = ''N'' then r\<lparr>y := y r + 1\<rparr>
      else if orientation0 = ''S'' then r\<lparr>y := y r - 1\<rparr>
      else if orientation0 = ''E'' then r\<lparr>x := x r + 1\<rparr>
      else if orientation0 = ''W'' then r\<lparr>x := x r - 1\<rparr>
      else r)"

section \<open>maze.py: the maze and its walls\<close>

text \<open>
  The attributes of a \<open>Maze\<close> object.  \<open>h_walls\<close> holds pairs (x-coordinate,
  horizontal line), \<open>v_walls\<close> pairs (vertical line, y-coordinate).
  \<open>prev_runner\<close> is only annotated in the constructor: the attribute does not exist
  until \<open>move\<close> assigns it, which is \<open>None\<close> here.  The third render setting is
  the display duration, a number handed to the plotting library only.
\<close>

record maze =
  width :: int
  height :: int
  h_walls :: "(int \<times> int) set"
  v_walls :: "(int \<times> int) set"
  path :: "(int \<times> int) list"
  exploration_data :: "(string \<times> string \<times> string \<times> string) list"
  render_settings :: "bool \<times> bool \<times> real"
  prev_runner :: "(int \<times> int) option"
  run_id :: string

text \<open>\<open>range(n)\<close> for a Python integer: empty when \<open>n\<close> is not positive.\<close>

definition py_range :: "int \<Rightarrow> int list" where
  "py_range n = [0..n - 1]"

text \<open>
  The constructor: empty wall sets, an empty path, the header row of the exploration
  data, then the two loops that add the outer walls.
\<close>

definition Maze_init :: "int \<Rightarrow> int \<Rightarrow> maze" where
  "Maze_init width0 height0 =
     (let m0 = \<lparr>width = width0, height = height0, h_walls = {}, v_walls = {}, path = [],
                exploration_data =
                  [(''Step'', ''x-coordinate'', ''y-coordinate'', ''Actions'')],
                render_settings = (False, False, 1), prev_runner = None, run_id = []\<rparr>;
          m1 = fold (\<lambda>i m. m\<lparr>v_walls := insert (width0, i) (insert (0, i) (v_walls m))\<rparr>)
                 (py_range height0) m0;
          m2 = fold (\<lambda>i m. m\<lparr>h_walls := insert (i, height0) (insert (i, 0) (h_walls m))\<rparr>)
                 (py_range width0) m1
      in m2)"

text \<open>The two property setters: the caller assigns a whole new list.\<close>

definition set_path :: "maze \<Rightarrow> (int \<times> int) list \<Rightarrow> maze" where
  "set_path m path0 = m\<lparr>path := path0\<rparr>"

definition set_exploration_data ::
  "maze \<Rightarrow> (string \<times> string \<times> string \<times> string) list \<Rightarrow> maze" where
  "set_exploration_data m exploration_data0 = m\<lparr>exploration_data := exploration_data0\<rparr>"

definition add_horizontal_wall :: "maze \<Rightarrow> int \<Rightarrow> int \<Rightarrow> maze" where
  "add_horizontal_wall m x_coordinate horizontal_line =
     (if 0 \<le> x_coordinate \<and> x_coordinate < width m
         \<and> 1 \<le> horizontal_line \<and> horizontal_line < height m
      then m\<lparr>h_walls := insert (x_coordinate, horizontal_line) (h_walls m)\<rparr>
      else m)"

definition add_vertical_wall :: "maze \<Rightarrow> int \<Rightarrow> int \<Rightarrow> maze" where
  "add_vertical_wall m y_coordinate vertical_line =
     (if 0 \<le> y_coordinate \<and> y_coordinate < height m
         \<and> 1 \<le> vertical_line \<and> vertical_line < width m
      then m\<lparr>v_walls := insert (vertical_line, y_coordinate) (v_walls m)\<rparr>
      else m)"

text \<open>\<open>get_walls\<close> returns (north, east, south, west).\<close>

definition get_walls :: "maze \<Rightarrow> int \<Rightarrow> int \<Rightarrow> bool \<times> bool \<times> bool \<times> bool" where
  "get_walls m x_coordinate y_coordinate =
     (let north = (x_coordinate, y_coordinate + 1) \<in> h_walls m;
          east = (x_coordinate + 1, y_coordinate) \<in> v_walls m;
          south = (x_coordinate, y_coordinate) \<in> h_walls m;
          west = (x_coordinate, y_coordinate) \<in> v_walls m
      in (north, east, south, west))"

text \<open>
  \<open>walls[wall_num]\<close> on the 4-tuple; \<open>wall_num\<close> is only ever one of 0, 1, 2, 3.
\<close>

definition walls_at :: "bool \<times> bool \<times> bool \<times> bool \<Rightarrow> nat \<Rightarrow> bool" where
  "walls_at walls wall_num =
     (case walls of (north, east, south, west) \<Rightarrow>
        if wall_num = 0 then north else if wall_num = 1 then east
        else if wall_num = 2 then south else west)"

text \<open>
  One round of the loop of \<open>sense_walls\<close>: the state is (\<open>wall_num\<close>,
  \<open>sensed_walls\<close>); an orientation that is none of the four letters keeps the
  \<open>wall_num\<close> of the round before.
\<close>

definition sense_step ::
  "bool \<times> bool \<times> bool \<times> bool \<Rightarrow> string \<Rightarrow> nat \<times> bool list \<Rightarrow> nat \<times> bool list" where
  "sense_step walls orientation0 st =
     (case st of (wall_num, sensed_walls) \<Rightarrow>
        (let wall_num1 =
               (if orientation0 = ''N'' then 0
                else if orientation0 = ''S'' then 2
                else if orientation0 = ''E'' then 1
                else if orientation0 = ''W'' then 3
                else wall_num)
         in (wall_num1, sensed_walls @ [walls_at walls wall_num1])))"

definition sense_walls :: "maze \<Rightarrow> runner \<Rightarrow> error + (bool \<times> bool \<times> bool)" where
  "sense_walls m r =
     (let walls = get_walls m (get_x r) (get_y r) in
      case orientation_options r of
        Inl e \<Rightarrow> Inl e
      | Inr (left, current, right) \<Rightarrow>
          (let sensed_walls = snd (fold (sense_step walls) [left, current, right] (0, []))
           in Inr (sensed_walls ! 0, sensed_walls ! 1, sensed_walls ! 2)))"

text \<open>\<open>go_straight\<close> raises \<open>ValueError\<close> when there is a wall in front.\<close>

definition go_straight :: "maze \<Rightarrow> runner \<Rightarrow> error + runner" where
  "go_straight m r =
     (case sense_walls m r of
        Inl e \<Rightarrow> Inl e
      | Inr (left_wall, front_wall, right_wall) \<Rightarrow>
          if \<not> front_wall then Inr (forward r) else Inl ValueError)"

text \<open>
  \<open>move\<close>: one step of the left-hug rule.  It records the position before the step in
  \<open>prev_runner\<close> and returns the runner and the action string; the maze is returned too,
  for the attribute it has assigned.
\<close>

definition move :: "maze \<Rightarrow> runner \<Rightarrow> error + (maze \<times> runner \<times> string)" where
  "move m r =
     (let m1 = m\<lparr>prev_runner := Some (get_x r, get_y r)\<rparr> in
      case sense_walls m1 r of
        Inl e \<Rightarrow> Inl e
      | Inr (left_wall, front_wall, right_wall) \<Rightarrow>
          if \<not> left_wall then
            (case turn r ''Left'' of
               Inl e \<Rightarrow> Inl e
             | Inr r1 \<Rightarrow>
                 (case go_straight m1 r1 of
                    Inl e \<Rightarrow> Inl e
                  | Inr r2 \<Rightarrow> Inr (m1, r2, ''LF'')))
          else if \<not> front_wall then
            (case go_straight m1 r of
               Inl e \<Rightarrow> Inl e
             | Inr r1 \<Rightarrow> Inr (m1, r1, ''F''))
          else if \<not> right_wall then
            (case turn r ''Right'' of
               Inl e \<Rightarrow> Inl e
             | Inr r1 \<Rightarrow>
                 (case go_straight m1 r1 of
                    Inl e \<Rightarrow> Inl e
                  | Inr r2 \<Rightarrow> Inr (m1, r2, ''RF'')))
          else
            (case turn r ''Left'' of
               Inl e \<Rightarrow> Inl e
             | Inr r1 \<Rightarrow>
                 (case turn r1 ''Left'' of
                    Inl e \<Rightarrow> Inl e
                  | Inr r2 \<Rightarrow>
                      (case go_straight m1 r2 of
                         Inl e \<Rightarrow> Inl e
                       | Inr r3 \<Rightarrow> Inr (m1, r3, ''LLF'')))))"

section \<open>maze.py: loop removal\<close>

text \<open>
  One round of the loop over \<open>enumerate(self.path)\<close> in \<open>shortest_path\<close>.  The
  state is the dictionary \<open>visited\<close> and the list \<open>direct_path\<close>.  A position
  found in \<open>visited\<close> cuts the list with the slice \<open>direct_path[:loop_start + 1]\<close>,
  which keeps the whole list when it is shorter than that; a new position is appended and
  \<open>len(direct_path) - 1\<close> is stored for it.
\<close>

definition loop_removal_step ::
  "nat \<times> (int \<times> int) \<Rightarrow> ((int \<times> int) \<rightharpoonup> nat) \<times> (int \<times> int) list
     \<Rightarrow> ((int \<times> int) \<rightharpoonup> nat) \<times> (int \<times> int) list" where
  "loop_removal_step ip st =
     (case ip of (index, position) \<Rightarrow>
      case st of (visited, direct_path) \<Rightarrow>
        (case visited position of
           Some loop_start \<Rightarrow> (visited, take (loop_start + 1) direct_path)
         | None \<Rightarrow>
             (let direct_path1 = direct_path @ [(fst position, snd position)]
              in (visited(position \<mapsto> length direct_path1 - 1), direct_path1))))"

definition loop_removal :: "(int \<times> int) list \<Rightarrow> (int \<times> int) list" where
  "loop_removal path0 = snd (fold loop_removal_step (enumerate 0 path0) (Map.empty, []))"

section \<open>maze.py: exploration\<close>

text \<open>\<open>str(i)\<close> for a Python integer: the decimal digits, with a minus sign in front
  of a negative number.\<close>

fun str_nat :: "nat \<Rightarrow> string" where
  "str_nat n =
     (if n < 10 then [''0123456789'' ! n]
      else str_nat (n div 10) @ [''0123456789'' ! (n mod 10)])"

declare str_nat.simps [simp del]

definition str_int :: "int \<Rightarrow> string" where
  "str_int i = (if i < 0 then CHR ''-'' # str_nat (nat (- i)) else str_nat (nat i))"

text \<open>
  The \<open>while\<close> loop of \<open>explore\<close>, with the variables it updates: the maze (its path
  and exploration data grow), the runner, the step counter and the action string.  The
  loop has no bound and never ends when the goal is not reached: the result is then
  \<open>None\<close>.  An exception raised by \<open>move\<close> ends the loop with \<open>Inl\<close>.
  Rendering and the progress bar draw and print; they read the maze and the runner and
  change neither, and are left out.
\<close>

partial_function (option) explore_loop ::
  "maze \<Rightarrow> runner \<Rightarrow> int \<times> int \<Rightarrow> int \<Rightarrow> string
     \<Rightarrow> (error + (maze \<times> runner \<times> int \<times> string)) option" where
  "explore_loop m r goal num actions =
     (if (get_x r, get_y r) \<noteq> goal then
        (let m1 = m\<lparr>path := path m @ [(get_x r, get_y r)]\<rparr> in
         case move m1 r of
           Inl e \<Rightarrow> Some (Inl e)
         | Inr (m2, r1, action) \<Rightarrow>
             (case prev_runner m2 of
                None \<Rightarrow> Some (Inl AttributeError)
              | Some prev \<Rightarrow>
                  explore_loop
                    (m2\<lparr>exploration_data := exploration_data m2 @
                          [(str_int (num + 1), str_int (fst prev), str_int (snd prev), action)]\<rparr>)
                    r1 goal (num + 1) (actions @ action)))
      else Some (Inr (m, r, num, actions)))"

text \<open>
  \<open>explore\<close> runs the loop from step 0 with no actions, appends the final position to
  the path and returns the action string (with the maze and the runner it has updated).
\<close>

definition explore ::
  "maze \<Rightarrow> runner \<Rightarrow> int \<times> int \<Rightarrow> (error + (maze \<times> runner \<times> string)) option" where
  "explore m r goal =
     (case explore_loop m r goal 0 [] of
        None \<Rightarrow> None
      | Some (Inl e) \<Rightarrow> Some (Inl e)
      | Some (Inr (m1, r1, num, actions)) \<Rightarrow>
          Some (Inr (m1\<lparr>path := path m1 @ [(get_x r1, get_y r1)]\<rparr>, r1, actions)))"

text \<open>
  \<open>shortest_path\<close>: the defaults for the two optional arguments, a new runner facing
  north at the start, the exploration, and the loop removal over the whole stored path.
\<close>

definition shortest_path ::
  "maze \<Rightarrow> (int \<times> int) option \<Rightarrow> (int \<times> int) option
     \<Rightarrow> (error + (maze \<times> (int \<times> int) list)) option" where
  "shortest_path m starting goal =
     (let starting1 = (case starting of None \<Rightarrow> (0, 0) | Some s \<Rightarrow> s);
          goal1 = (case goal of None \<Rightarrow> (width m - 1, height m - 1) | Some g \<Rightarrow> g);
          r = create_runner (fst starting1) (snd starting1) ''N''
      in case explore m r goal1 of
           None \<Rightarrow> None
         | Some (Inl e) \<Rightarrow> Some (Inl e)
         | Some (Inr (m1, r1, actions)) \<Rightarrow> Some (Inr (m1, loop_removal (path m1))))"

section \<open>Definitions for the statements\<close>

text \<open>
  The path simplifier in the words of the specification: an output sequence and a map
  from a coordinate to the index of its first occurrence in the output; an unseen
  coordinate is appended and its output index recorded, a coordinate seen at index
  \<open>k\<close> truncates the output to its first \<open>k + 1\<close> entries and the map stays as
  it is.
\<close>

fun spec_simplifier_scan ::
  "(int \<times> int) list \<Rightarrow> ((int \<times> int) \<rightharpoonup> nat) \<Rightarrow> (int \<times> int) list \<Rightarrow> (int \<times> int) list" where
  "spec_simplifier_scan [] first_index out_seq = out_seq"
| "spec_simplifier_scan (c # cs) first_index out_seq =
     (case first_index c of
        None \<Rightarrow> spec_simplifier_scan cs (first_index(c \<mapsto> length out_seq)) (out_seq @ [c])
      | Some k \<Rightarrow> spec_simplifier_scan cs first_index (take (k + 1) out_seq))"

definition spec_simplifier :: "(int \<times> int) list \<Rightarrow> (int \<times> int) list" where
  "spec_simplifier trace = spec_simplifier_scan trace Map.empty []"

text \<open>
  Two mazes that differ only in what a run writes: the path and the exploration data
  grow at the end, \<open>prev_runner\<close> may change, everything else is the same.
\<close>

definition run_extends :: "maze \<Rightarrow> maze \<Rightarrow> bool" where
  "run_extends m m' =
     (width m' = width m \<and> height m' = height m
      \<and> h_walls m' = h_walls m \<and> v_walls m' = v_walls m
      \<and> render_settings m' = render_settings m \<and> run_id m' = run_id m
      \<and> prefix (path m) (path m') \<and> prefix (exploration_data m) (exploration_data m'))"

text \<open>
  The mazes a caller can arrive at with a maze of width \<open>w\<close> and height \<open>h\<close>:
  the constructor, then any sequence of the two wall insertions, the property setters,
  the two attributes the driver assigns (\<open>render_settings\<close>, \<open>run_id\<close>), and the
  calls of \<open>move\<close>, \<open>explore\<close> and \<open>shortest_path\<close> that return.
\<close>

inductive after_operations :: "int \<Rightarrow> int \<Rightarrow> maze \<Rightarrow> bool" for w h where
  constructed: "after_operations w h (Maze_init w h)"
| horizontal_wall:
    "after_operations w h m \<Longrightarrow> after_operations w h (add_horizontal_wall m a l)"
| vertical_wall:
    "after_operations w h m \<Longrightarrow> after_operations w h (add_vertical_wall m b k)"
| path_set:
    "after_operations w h m \<Longrightarrow> after_operations w h (set_path m path0)"
| exploration_data_set:
    "after_operations w h m \<Longrightarrow> after_operations w h (set_exploration_data m data0)"
| render_settings_set:
    "after_operations w h m \<Longrightarrow> after_operations w h (m\<lparr>render_settings := settings\<rparr>)"
| run_id_set:
    "after_operations w h m \<Longrightarrow> after_operations w h (m\<lparr>run_id := run_id0\<rparr>)"
| moved:
    "after_operations w h m \<Longrightarrow> move m r = Inr (m', r', action)
     \<Longrightarrow> after_operations w h m'"
| explored:
    "after_operations w h m \<Longrightarrow> explore m r goal = Some (Inr (m', r', actions))
     \<Longrightarrow> after_operations w h m'"
| solved:
    "after_operations w h m \<Longrightarrow> shortest_path m starting goal = Some (Inr (m', direct_path))
     \<Longrightarrow> after_operations w h m'"

definition outer_walls :: "int \<Rightarrow> int \<Rightarrow> maze \<Rightarrow> bool" where
  "outer_walls w h m =
     (width m = w \<and> height m = h
      \<and> (\<lambda>i. (i, 0)) ` {0..<w} \<subseteq> h_walls m \<and> (\<lambda>i. (i, h)) ` {0..<w} \<subseteq> h_walls m
      \<and> (\<lambda>j. (0, j)) ` {0..<h} \<subseteq> v_walls m \<and> (\<lambda>j. (w, j)) ` {0..<h} \<subseteq> v_walls m)"

text \<open>
  The maze of width 1 and height 2 after one and after two calls of
  \<open>shortest_path\<close> with the default start and goal.
\<close>

definition once_solved :: maze where
  "once_solved =
     (Maze_init 1 2)\<lparr>path := [(0, 0), (0, 1)],
        exploration_data :=
          [(''Step'', ''x-coordinate'', ''y-coordinate'', ''Actions''),
           (''1'', ''0'', ''0'', ''F'')],
        prev_runner := Some (0, 0)\<rparr>"

definition twice_solved :: maze where
  "twice_solved =
     (Maze_init 1 2)\<lparr>path := [(0, 0), (0, 1), (0, 0), (0, 1)],
        exploration_data :=
          [(''Step'', ''x-coordinate'', ''y-coordinate'', ''Actions''),
           (''1'', ''0'', ''0'', ''F''), (''1'', ''0'', ''0'', ''F'')],
        prev_runner := Some (0, 0)\<rparr>"

section \<open>Orientation facts\<close>

lemma orientation_options_N [simp]:
  "orientation r = ''N'' \<Longrightarrow> orientation_options r = Inr (''W'', ''N'', ''E'')"
  by (simp add: orientation_options_def get_orientation_def orientations_def
      py_index_def py_nth_def)

lemma orientation_options_E [simp]:
  "orientation r = ''E'' \<Longrightarrow> orientation_options r = Inr (''N'', ''E'', ''S'')"
  by (simp add: orientation_options_def get_orientation_def orientations_def
      py_index_def py_nth_def)

lemma orientation_options_S [simp]:
  "orientation r = ''S'' \<Longrightarrow> orientation_options r = Inr (''E'', ''S'', ''W'')"
  by (simp add: orientation_options_def get_orientation_def orientations_def
      py_index_def py_nth_def)

lemma orientation_options_W [simp]:
  "orientation r = ''W'' \<Longrightarrow> orientation_options r = Inr (''S'', ''W'', ''N'')"
  by (simp add: orientation_options_def get_orientation_def orientations_def
      py_index_def py_nth_def)

text \<open>
  C8: \<open>forward\<close> moves the position one cell in the direction of the orientation
  (N: y+1, S: y-1, E: x+1, W: x-1) and keeps the orientation; \<open>turn\<close> with
  \<open>Left\<close> (\<open>Right\<close>) sets the orientation to the predecessor (successor) in the
  cycle N, E, S, W and keeps the position, so a left turn followed by a right turn
  gives back the runner it started from.  Stated for the four orientations one by one,
  at every position; the last four lines run the left turn and then the right turn on
  its result.
\<close>

theorem runner_forward_turn:
  "forward (create_runner a b ''N'') = create_runner a (b + 1) ''N''
 \<and> forward (create_runner a b ''S'') = create_runner a (b - 1) ''S''
 \<and> forward (create_runner a b ''E'') = create_runner (a + 1) b ''E''
 \<and> forward (create_runner a b ''W'') = create_runner (a - 1) b ''W''
 \<and> turn (create_runner a b ''N'') ''Left'' = Inr (create_runner a b ''W'')
 \<and> turn (create_runner a b ''E'') ''Left'' = Inr (create_runner a b ''N'')
 \<and> turn (create_runner a b ''S'') ''Left'' = Inr (create_runner a b ''E'')
 \<and> turn (create_runner a b ''W'') ''Left'' = Inr (create_runner a b ''S'')
 \<and> turn (create_runner a b ''N'') ''Right'' = Inr (create_runner a b ''E'')
 \<and> turn (create_runner a b ''E'') ''Right'' = Inr (create_runner a b ''S'')
 \<and> turn (create_runner a b ''S'') ''Right'' = Inr (create_runner a b ''W'')
 \<and> turn (create_runner a b ''W'') ''Right'' = Inr (create_runner a b ''N'')
 \<and> (case turn (create_runner a b ''N'') ''Left'' of
       Inl e \<Rightarrow> Inl e | Inr r1 \<Rightarrow> turn r1 ''Right'') = Inr (create_runner a b ''N'')
 \<and> (case turn (create_runner a b ''E'') ''Left'' of
       Inl e \<Rightarrow> Inl e | Inr r1 \<Rightarrow> turn r1 ''Right'') = Inr (create_runner a b ''E'')
 \<and> (case turn (create_runner a b ''S'') ''Left'' of
       Inl e \<Rightarrow> Inl e | Inr r1 \<Rightarrow> turn r1 ''Right'') = Inr (create_runner a b ''S'')
 \<and> (case turn (create_runner a b ''W'') ''Left'' of
       Inl e \<Rightarrow> Inl e | Inr r1 \<Rightarrow> turn r1 ''Right'') = Inr (create_runner a b ''W'')"
  by (simp add: forward_def turn_def create_runner_def get_orientation_def)

section \<open>Wall sensing\<close>

lemma sense_walls_N:
  "orientation r = ''N'' \<Longrightarrow> get_walls m (x r) (y r) = (n, e, s, w)
   \<Longrightarrow> sense_walls m r = Inr (w, n, e)"
  by (simp add: sense_walls_def sense_step_def walls_at_def get_x_def get_y_def)

lemma sense_walls_E:
  "orientation r = ''E'' \<Longrightarrow> get_walls m (x r) (y r) = (n, e, s, w)
   \<Longrightarrow> sense_walls m r = Inr (n, e, s)"
  by (simp add: sense_walls_def sense_step_def walls_at_def get_x_def get_y_def)

lemma sense_walls_S:
  "orientation r = ''S'' \<Longrightarrow> get_walls m (x r) (y r) = (n, e, s, w)
   \<Longrightarrow> sense_walls m r = Inr (e, s, w)"
  by (simp add: sense_walls_def sense_step_def walls_at_def get_x_def get_y_def)

lemma sense_walls_W:
  "orientation r = ''W'' \<Longrightarrow> get_walls m (x r) (y r) = (n, e, s, w)
   \<Longrightarrow> sense_walls m r = Inr (s, w, n)"
  by (simp add: sense_walls_def sense_step_def walls_at_def get_x_def get_y_def)

text \<open>
  C2: \<open>get_walls\<close> at (xc, yc) returns (north, east, south, west) with north the
  membership of (xc, yc+1) in the horizontal walls, south that of (xc, yc), east the
  membership of (xc+1, yc) in the vertical walls and west that of (xc, yc); and
  \<open>sense_walls\<close> returns these flags rotated into the runner's frame: facing N it is
  (west, north, east), facing E (north, east, south), facing S (east, south, west),
  facing W (south, west, north).  The maze is arbitrary, so every combination of the four
  flags is covered.
\<close>

theorem get_walls_sense_walls_rotation:
  "get_walls m xc yc =
     ((xc, yc + 1) \<in> h_walls m, (xc + 1, yc) \<in> v_walls m,
      (xc, yc) \<in> h_walls m, (xc, yc) \<in> v_walls m)
 \<and> sense_walls m (create_runner xc yc ''N'') =
     Inr ((xc, yc) \<in> v_walls m, (xc, yc + 1) \<in> h_walls m, (xc + 1, yc) \<in> v_walls m)
 \<and> sense_walls m (create_runner xc yc ''E'') =
     Inr ((xc, yc + 1) \<in> h_walls m, (xc + 1, yc) \<in> v_walls m, (xc, yc) \<in> h_walls m)
 \<and> sense_walls m (create_runner xc yc ''S'') =
     Inr ((xc + 1, yc) \<in> v_walls m, (xc, yc) \<in> h_walls m, (xc, yc) \<in> v_walls m)
 \<and> sense_walls m (create_runner xc yc ''W'') =
     Inr ((xc, yc) \<in> h_walls m, (xc, yc) \<in> v_walls m, (xc, yc + 1) \<in> h_walls m)"
  by (simp add: get_walls_def sense_walls_def sense_step_def walls_at_def get_x_def
      get_y_def create_runner_def)

section \<open>One step of the left-hug rule\<close>

lemma get_walls_prev_runner [simp]:
  "get_walls (m\<lparr>prev_runner := p\<rparr>) a b = get_walls m a b"
  by (simp add: get_walls_def)

lemma sense_walls_prev_runner [simp]:
  "sense_walls (m\<lparr>prev_runner := p\<rparr>) r = sense_walls m r"
  by (simp add: sense_walls_def)

lemma go_straight_prev_runner [simp]:
  "go_straight (m\<lparr>prev_runner := p\<rparr>) r = go_straight m r"
  by (simp add: go_straight_def)

lemma valid_orientation_cases:
  "orientation r \<in> set orientations \<Longrightarrow>
   orientation r = ''N'' \<or> orientation r = ''E'' \<or> orientation r = ''S'' \<or> orientation r = ''W''"
  by (auto simp: orientations_def)

lemma turn_Left:
  "orientation r = ''N'' \<Longrightarrow> turn r ''Left'' = Inr (r\<lparr>orientation := ''W''\<rparr>)"
  "orientation r = ''E'' \<Longrightarrow> turn r ''Left'' = Inr (r\<lparr>orientation := ''N''\<rparr>)"
  "orientation r = ''S'' \<Longrightarrow> turn r ''Left'' = Inr (r\<lparr>orientation := ''E''\<rparr>)"
  "orientation r = ''W'' \<Longrightarrow> turn r ''Left'' = Inr (r\<lparr>orientation := ''S''\<rparr>)"
  by (simp_all add: turn_def)

lemma turn_Right:
  "orientation r = ''N'' \<Longrightarrow> turn r ''Right'' = Inr (r\<lparr>orientation := ''E''\<rparr>)"
  "orientation r = ''E'' \<Longrightarrow> turn r ''Right'' = Inr (r\<lparr>orientation := ''S''\<rparr>)"
  "orientation r = ''S'' \<Longrightarrow> turn r ''Right'' = Inr (r\<lparr>orientation := ''W''\<rparr>)"
  "orientation r = ''W'' \<Longrightarrow> turn r ''Right'' = Inr (r\<lparr>orientation := ''N''\<rparr>)"
  by (simp_all add: turn_def)

lemma move_N:
  assumes "orientation r = ''N''" "get_walls m (x r) (y r) = (n, e, s, w)"
  shows "move m r =
    (if \<not> w then Inr (m\<lparr>prev_runner := Some (x r, y r)\<rparr>, forward (r\<lparr>orientation := ''W''\<rparr>), ''LF'')
     else if \<not> n then Inr (m\<lparr>prev_runner := Some (x r, y r)\<rparr>, forward r, ''F'')
     else if \<not> e then Inr (m\<lparr>prev_runner := Some (x r, y r)\<rparr>, forward (r\<lparr>orientation := ''E''\<rparr>), ''RF'')
     else if \<not> s then Inr (m\<lparr>prev_runner := Some (x r, y r)\<rparr>, forward (r\<lparr>orientation := ''S''\<rparr>), ''LLF'')
     else Inl ValueError)"
  using assms
  by (simp add: move_def go_straight_def turn_Left turn_Right get_x_def get_y_def
      sense_walls_N sense_walls_E sense_walls_S sense_walls_W)

lemma move_E:
  assumes "orientation r = ''E''" "get_walls m (x r) (y r) = (n, e, s, w)"
  shows "move m r =
    (if \<not> n then Inr (m\<lparr>prev_runner := Some (x r, y r)\<rparr>, forward (r\<lparr>orientation := ''N''\<rparr>), ''LF'')
     else if \<not> e then Inr (m\<lparr>prev_runner := Some (x r, y r)\<rparr>, forward r, ''F'')
     else if \<not> s then Inr (m\<lparr>prev_runner := Some (x r, y r)\<rparr>, forward (r\<lparr>orientation := ''S''\<rparr>), ''RF'')
     else if \<not> w then Inr (m\<lparr>prev_runner := Some (x r, y r)\<rparr>, forward (r\<lparr>orientation := ''W''\<rparr>), ''LLF'')
     else Inl ValueError)"
  using assms
  by (simp add: move_def go_straight_def turn_Left turn_Right get_x_def get_y_def
      sense_walls_N sense_walls_E sense_walls_S sense_walls_W)

lemma move_S:
  assumes "orientation r = ''S''" "get_walls m (x r) (y r) = (n, e, s, w)"
  shows "move m r =
    (if \<not> e then Inr (m\<lparr>prev_runner := Some (x r, y r)\<rparr>, forward (r\<lparr>orientation := ''E''\<rparr>), ''LF'')
     else if \<not> s then Inr (m\<lparr>prev_runner := Some (x r, y r)\<rparr>, forward r, ''F'')
     else if \<not> w then Inr (m\<lparr>prev_runner := Some (x r, y r)\<rparr>, forward (r\<lparr>orientation := ''W''\<rparr>), ''RF'')
     else if \<not> n then Inr (m\<lparr>prev_runner := Some (x r, y r)\<rparr>, forward (r\<lparr>orientation := ''N''\<rparr>), ''LLF'')
     else Inl ValueError)"
  using assms
  by (simp add: move_def go_straight_def turn_Left turn_Right get_x_def get_y_def
      sense_walls_N sense_walls_E sense_walls_S sense_walls_W)

lemma move_W:
  assumes "orientation r = ''W''" "get_walls m (x r) (y r) = (n, e, s, w)"
  shows "move m r =
    (if \<not> s then Inr (m\<lparr>prev_runner := Some (x r, y r)\<rparr>, forward (r\<lparr>orientation := ''S''\<rparr>), ''LF'')
     else if \<not> w then Inr (m\<lparr>prev_runner := Some (x r, y r)\<rparr>, forward r, ''F'')
     else if \<not> n then Inr (m\<lparr>prev_runner := Some (x r, y r)\<rparr>, forward (r\<lparr>orientation := ''N''\<rparr>), ''RF'')
     else if \<not> e then Inr (m\<lparr>prev_runner := Some (x r, y r)\<rparr>, forward (r\<lparr>orientation := ''E''\<rparr>), ''LLF'')
     else Inl ValueError)"
  using assms
  by (simp add: move_def go_straight_def turn_Left turn_Right get_x_def get_y_def
      sense_walls_N sense_walls_E sense_walls_S sense_walls_W)

lemma forward_orientation [simp]: "orientation (forward r) = orientation r"
  by (simp add: forward_def Let_def)

text \<open>Freshly constructed mazes of small sizes, with their walls written out.\<close>

lemma Maze_init_1_1:
  "Maze_init 1 1 = \<lparr>width = 1, height = 1, h_walls = {(0, 1), (0, 0)},
     v_walls = {(1, 0), (0, 0)}, path = [],
     exploration_data = [(''Step'', ''x-coordinate'', ''y-coordinate'', ''Actions'')],
     render_settings = (False, False, 1), prev_runner = None, run_id = []\<rparr>"
  by (simp add: Maze_init_def py_range_def)

lemma Maze_init_1_2:
  "Maze_init 1 2 = \<lparr>width = 1, height = 2, h_walls = {(0, 2), (0, 0)},
     v_walls = {(1, 1), (0, 1), (1, 0), (0, 0)}, path = [],
     exploration_data = [(''Step'', ''x-coordinate'', ''y-coordinate'', ''Actions'')],
     render_settings = (False, False, 1), prev_runner = None, run_id = []\<rparr>"
  by (simp add: Maze_init_def py_range_def upto_rec1)

lemma Maze_init_2_1:
  "Maze_init 2 1 = \<lparr>width = 2, height = 1, h_walls = {(1, 1), (1, 0), (0, 1), (0, 0)},
     v_walls = {(2, 0), (0, 0)}, path = [],
     exploration_data = [(''Step'', ''x-coordinate'', ''y-coordinate'', ''Actions'')],
     render_settings = (False, False, 1), prev_runner = None, run_id = []\<rparr>"
  by (simp add: Maze_init_def py_range_def upto_rec1)

text \<open>
  C1 (as amended): for every maze and every runner whose orientation is one of the four
  letters, \<open>move\<close> applies the fixed priority to the sensed (left, front, right)
  walls: no left wall, it turns left and advances, action \<open>LF\<close>; else no front
  wall, it advances, action \<open>F\<close>; else no right wall, it turns right and advances,
  action \<open>RF\<close>; else it turns left twice and, when there is no wall behind
  either, advances with action \<open>LLF\<close>.  In a cell walled on all four sides the
  last branch raises the \<open>ValueError\<close> of \<open>go_straight\<close> and no action is
  returned.  Every action returned is one of the four strings.
\<close>

theorem move_priority:
  assumes "orientation r \<in> set orientations"
  shows "\<exists>left_wall front_wall right_wall r_left r_right r_back back_left back_wall back_right m1.
      sense_walls m r = Inr (left_wall, front_wall, right_wall)
    \<and> turn r ''Left'' = Inr r_left \<and> turn r ''Right'' = Inr r_right
    \<and> turn r_left ''Left'' = Inr r_back
    \<and> sense_walls m r_back = Inr (back_left, back_wall, back_right)
    \<and> m1 = m\<lparr>prev_runner := Some (get_x r, get_y r)\<rparr>
    \<and> move m r =
        (if \<not> left_wall then Inr (m1, forward r_left, ''LF'')
         else if \<not> front_wall then Inr (m1, forward r, ''F'')
         else if \<not> right_wall then Inr (m1, forward r_right, ''RF'')
         else if \<not> back_wall then Inr (m1, forward r_back, ''LLF'')
         else Inl ValueError)
    \<and> (\<forall>m' r' action. move m r = Inr (m', r', action)
          \<longrightarrow> action \<in> {''F'', ''LF'', ''RF'', ''LLF''})"
proof -
  obtain n e s w where gw: "get_walls m (x r) (y r) = (n, e, s, w)"
    by (cases "get_walls m (x r) (y r)") auto
  from valid_orientation_cases [OF assms] show ?thesis
  proof (elim disjE)
    assume o: "orientation r = ''N''"
    show ?thesis
      using o gw
      by (simp add: move_N [OF o gw] turn_Left turn_Right sense_walls_N sense_walls_E
          sense_walls_S sense_walls_W get_x_def get_y_def)
  next
    assume o: "orientation r = ''E''"
    show ?thesis
      using o gw
      by (simp add: move_E [OF o gw] turn_Left turn_Right sense_walls_N sense_walls_E
          sense_walls_S sense_walls_W get_x_def get_y_def)
  next
    assume o: "orientation r = ''S''"
    show ?thesis
      using o gw
      by (simp add: move_S [OF o gw] turn_Left turn_Right sense_walls_N sense_walls_E
          sense_walls_S sense_walls_W get_x_def get_y_def)
  next
    assume o: "orientation r = ''W''"
    show ?thesis
      using o gw
      by (simp add: move_W [OF o gw] turn_Left turn_Right sense_walls_N sense_walls_E
          sense_walls_S sense_walls_W get_x_def get_y_def)
  qed
qed

theorem move_priority_witness:
  "orientation (create_runner 0 0 ''N'') \<in> set orientations
 \<and> move (Maze_init 1 2) (create_runner 0 0 ''N'')
     = Inr ((Maze_init 1 2)\<lparr>prev_runner := Some (0, 0)\<rparr>, create_runner 0 1 ''N'', ''F'')"
proof -
  have h: "orientation (create_runner 0 0 ''N'') \<in> set orientations"
    by (simp add: create_runner_def orientations_def)
  have s: "sense_walls (Maze_init 1 2) (create_runner 0 0 ''N'') = Inr (True, False, True)"
    by (simp add: Maze_init_1_2 create_runner_def get_walls_def
        sense_walls_N [where n = False and e = True and s = True and w = True])
  from move_priority [OF h, of "Maze_init 1 2"] s
  have "move (Maze_init 1 2) (create_runner 0 0 ''N'')
     = Inr ((Maze_init 1 2)\<lparr>prev_runner := Some (get_x (create_runner 0 0 ''N''),
          get_y (create_runner 0 0 ''N''))\<rparr>, forward (create_runner 0 0 ''N''), ''F'')"
    by auto
  then show ?thesis
    using h by (simp add: create_runner_def get_x_def get_y_def get_orientation_def forward_def)
qed

text \<open>
  The claim as first stated fails in the 1 by 1 maze: all three sensed sides are walled,
  and \<open>move\<close> returns no \<open>LLF\<close> but raises.
\<close>

theorem move_closed_cell_counterexample:
  "sense_walls (Maze_init 1 1) (create_runner 0 0 ''N'') = Inr (True, True, True)
 \<and> move (Maze_init 1 1) (create_runner 0 0 ''N'') = Inl ValueError"
  by (simp add: Maze_init_1_1 create_runner_def move_N [where n = True and e = True and s = True and w = True]
      sense_walls_N [where n = True and e = True and s = True and w = True] get_walls_def)

text \<open>
  C5 (as amended): for every maze and every runner whose orientation is one of the four
  letters, \<open>move\<close> never advances the runner into a wall: whenever it returns,
  the runner has gone \<open>forward\<close> from its old cell in its new heading, and
  \<open>sense_walls\<close> reports no wall in front for that heading.  The wall-ahead error
  of \<open>go_straight\<close> is the only error \<open>move\<close> can raise; it cannot be
  reached when one of the three sensed sides is open, and it is raised exactly when the
  cell is walled on all four sides (from the turn-around branch, which advances without
  sensing the side behind).
\<close>

theorem move_never_into_wall:
  assumes "orientation r \<in> set orientations"
  shows "(move m r = Inl ValueError
            \<longleftrightarrow> get_walls m (get_x r) (get_y r) = (True, True, True, True))
    \<and> (\<forall>e. move m r = Inl e \<longrightarrow> e = ValueError)
    \<and> (\<forall>left_wall front_wall right_wall.
          sense_walls m r = Inr (left_wall, front_wall, right_wall)
          \<and> \<not> (left_wall \<and> front_wall \<and> right_wall)
          \<longrightarrow> (\<exists>m' r' action. move m r = Inr (m', r', action)))
    \<and> (\<forall>m' r' action. move m r = Inr (m', r', action)
          \<longrightarrow> (\<exists>left_wall right_wall.
                 sense_walls m (r\<lparr>orientation := orientation r'\<rparr>)
                   = Inr (left_wall, False, right_wall)
               \<and> r' = forward (r\<lparr>orientation := orientation r'\<rparr>)))"
proof -
  obtain n e s w where gw: "get_walls m (x r) (y r) = (n, e, s, w)"
    by (cases "get_walls m (x r) (y r)") auto
  from valid_orientation_cases [OF assms] show ?thesis
  proof (elim disjE)
    assume o: "orientation r = ''N''"
    have r: "r\<lparr>orientation := ''N''\<rparr> = r" using o by simp
    show ?thesis
      using o gw
      by (auto simp add: r move_N [OF o gw] sense_walls_N sense_walls_E
          sense_walls_S sense_walls_W get_x_def get_y_def split: if_splits)
  next
    assume o: "orientation r = ''E''"
    have r: "r\<lparr>orientation := ''E''\<rparr> = r" using o by simp
    show ?thesis
      using o gw
      by (auto simp add: r move_E [OF o gw] sense_walls_N sense_walls_E
          sense_walls_S sense_walls_W get_x_def get_y_def split: if_splits)
  next
    assume o: "orientation r = ''S''"
    have r: "r\<lparr>orientation := ''S''\<rparr> = r" using o by simp
    show ?thesis
      using o gw
      by (auto simp add: r move_S [OF o gw] sense_walls_N sense_walls_E
          sense_walls_S sense_walls_W get_x_def get_y_def split: if_splits)
  next
    assume o: "orientation r = ''W''"
    have r: "r\<lparr>orientation := ''W''\<rparr> = r" using o by simp
    show ?thesis
      using o gw
      by (auto simp add: r move_W [OF o gw] sense_walls_N sense_walls_E
          sense_walls_S sense_walls_W get_x_def get_y_def split: if_splits)
  qed
qed

theorem move_never_into_wall_witness:
  "orientation (create_runner 0 0 ''E'') \<in> set orientations
 \<and> get_walls (add_vertical_wall (Maze_init 2 1) 0 1) 0 0 = (True, True, True, True)
 \<and> move (add_vertical_wall (Maze_init 2 1) 0 1) (create_runner 0 0 ''E'') = Inl ValueError
 \<and> get_walls (Maze_init 2 1) 0 0 \<noteq> (True, True, True, True)
 \<and> move (Maze_init 2 1) (create_runner 0 0 ''E'') \<noteq> Inl ValueError"
proof -
  have h: "orientation (create_runner 0 0 ''E'') \<in> set orientations"
    by (simp add: create_runner_def orientations_def)
  have g1: "get_walls (add_vertical_wall (Maze_init 2 1) 0 1) 0 0 = (True, True, True, True)"
    by (simp add: Maze_init_2_1 add_vertical_wall_def get_walls_def)
  have g2: "get_walls (Maze_init 2 1) 0 0 \<noteq> (True, True, True, True)"
    by (simp add: Maze_init_2_1 get_walls_def)
  have xy: "get_x (create_runner 0 0 ''E'') = 0" "get_y (create_runner 0 0 ''E'') = 0"
    by (simp_all add: create_runner_def get_x_def get_y_def)
  from move_never_into_wall [OF h, of "add_vertical_wall (Maze_init 2 1) 0 1"] g1 xy
  have m1: "move (add_vertical_wall (Maze_init 2 1) 0 1) (create_runner 0 0 ''E'') = Inl ValueError"
    by simp
  from move_never_into_wall [OF h, of "Maze_init 2 1"] g2 xy
  have m2: "move (Maze_init 2 1) (create_runner 0 0 ''E'') \<noteq> Inl ValueError"
    by simp
  show ?thesis using h g1 g2 m1 m2 by simp
qed

text \<open>
  The error branch is reachable: in a maze of two cells side by side with a wall between
  them, the runner in the left cell senses three walls, turns around and is told to go
  straight into the fourth.
\<close>

theorem go_straight_error_counterexample:
  "sense_walls (add_vertical_wall (Maze_init 2 1) 0 1) (create_runner 0 0 ''N'')
     = Inr (True, True, True)
 \<and> go_straight (add_vertical_wall (Maze_init 2 1) 0 1) (create_runner 0 0 ''S'')
     = Inl ValueError
 \<and> move (add_vertical_wall (Maze_init 2 1) 0 1) (create_runner 0 0 ''N'') = Inl ValueError"
  by (simp add: Maze_init_2_1 add_vertical_wall_def create_runner_def go_straight_def
      move_N [where n = True and e = True and s = True and w = True]
      sense_walls_N [where n = True and e = True and s = True and w = True]
      sense_walls_S [where n = True and e = True and s = True and w = True] get_walls_def)

section \<open>The loop removal\<close>

lemma loop_removal_step_unseen:
  "visited position = None \<Longrightarrow>
   loop_removal_step (index, position) (visited, direct_path)
     = (visited(position \<mapsto> length direct_path), direct_path @ [position])"
  by (simp add: loop_removal_step_def)

lemma loop_removal_step_seen:
  "visited position = Some k \<Longrightarrow>
   loop_removal_step (index, position) (visited, direct_path)
     = (visited, take (k + 1) direct_path)"
  by (simp add: loop_removal_step_def)

lemma scan_unseen:
  "first_index c = None \<Longrightarrow>
   spec_simplifier_scan (c # cs) first_index out_seq
     = spec_simplifier_scan cs (first_index(c \<mapsto> length out_seq)) (out_seq @ [c])"
  by simp

lemma scan_seen:
  "first_index c = Some k \<Longrightarrow>
   spec_simplifier_scan (c # cs) first_index out_seq
     = spec_simplifier_scan cs first_index (take (k + 1) out_seq)"
  by simp

lemma loop_removal_fold_scan:
  "snd (fold loop_removal_step (enumerate n ps) (visited, direct_path))
     = spec_simplifier_scan ps visited direct_path"
proof (induction ps arbitrary: n visited direct_path)
  case Nil
  show ?case by simp
next
  case (Cons p ps)
  show ?case
  proof (cases "visited p")
    case None
    have "fold loop_removal_step (enumerate n (p # ps)) (visited, direct_path)
        = fold loop_removal_step (enumerate (Suc n) ps)
            (visited(p \<mapsto> length direct_path), direct_path @ [p])"
      by (simp add: loop_removal_step_unseen [of visited p, OF None])
    then show ?thesis
      unfolding scan_unseen [of visited p, OF None] by (simp only: Cons.IH)
  next
    case (Some k)
    have "fold loop_removal_step (enumerate n (p # ps)) (visited, direct_path)
        = fold loop_removal_step (enumerate (Suc n) ps)
            (visited, take (k + 1) direct_path)"
      by (simp add: loop_removal_step_seen [of visited p, OF Some])
    then show ?thesis
      unfolding scan_seen [of visited p, OF Some] by (simp only: Cons.IH)
  qed
qed

lemma loop_removal_spec: "loop_removal trace = spec_simplifier trace"
  by (simp add: loop_removal_def spec_simplifier_def loop_removal_fold_scan)

lemma scan_distinct:
  "distinct out_seq \<Longrightarrow> set out_seq \<subseteq> dom first_index
   \<Longrightarrow> distinct (spec_simplifier_scan cs first_index out_seq)"
proof (induction cs arbitrary: first_index out_seq)
  case Nil
  then show ?case by simp
next
  case (Cons c cs)
  show ?case
  proof (cases "first_index c")
    case None
    have "c \<notin> set out_seq" using None Cons.prems(2) by (auto simp: dom_def)
    then have d: "distinct (out_seq @ [c])" using Cons.prems(1) by simp
    have sub: "set (out_seq @ [c]) \<subseteq> dom (first_index(c \<mapsto> length out_seq))"
      using Cons.prems(2) by auto
    show ?thesis
      unfolding scan_unseen [of first_index c, OF None] using d sub by (rule Cons.IH)
  next
    case (Some k)
    have d: "distinct (take (k + 1) out_seq)" using Cons.prems(1) by (rule distinct_take)
    have sub: "set (take (k + 1) out_seq) \<subseteq> dom first_index"
      using Cons.prems(2) set_take_subset [of "k + 1" out_seq] by blast
    show ?thesis
      unfolding scan_seen [of first_index c, OF Some] using d sub by (rule Cons.IH)
  qed
qed

lemma scan_hd:
  "out_seq \<noteq> [] \<Longrightarrow> spec_simplifier_scan cs first_index out_seq \<noteq> []
     \<and> hd (spec_simplifier_scan cs first_index out_seq) = hd out_seq"
proof (induction cs arbitrary: first_index out_seq)
  case Nil
  then show ?case by simp
next
  case (Cons c cs)
  show ?case
  proof (cases "first_index c")
    case None
    have ne: "out_seq @ [c] \<noteq> []" by simp
    have "hd (out_seq @ [c]) = hd out_seq" using Cons.prems by simp
    then show ?thesis
      unfolding scan_unseen [of first_index c, OF None]
      using Cons.IH [OF ne, of "first_index(c \<mapsto> length out_seq)"] by metis
  next
    case (Some k)
    have ne: "take (k + 1) out_seq \<noteq> []" using Cons.prems by (cases out_seq) auto
    have "hd (take (k + 1) out_seq) = hd out_seq"
      using Cons.prems by (cases out_seq) auto
    then show ?thesis
      unfolding scan_seen [of first_index c, OF Some]
      using Cons.IH [OF ne, of first_index] by metis
  qed
qed

lemma scan_identity:
  "distinct cs \<Longrightarrow> set cs \<inter> dom first_index = {}
   \<Longrightarrow> spec_simplifier_scan cs first_index out_seq = out_seq @ cs"
proof (induction cs arbitrary: first_index out_seq)
  case Nil
  show ?case by simp
next
  case (Cons c cs)
  have none: "first_index c = None" using Cons.prems(2) by (auto simp: dom_def)
  have d: "distinct cs" using Cons.prems(1) by simp
  have disj: "set cs \<inter> dom (first_index(c \<mapsto> length out_seq)) = {}"
    using Cons.prems by auto
  have "spec_simplifier_scan cs (first_index(c \<mapsto> length out_seq)) (out_seq @ [c])
      = (out_seq @ [c]) @ cs"
    using d disj by (rule Cons.IH)
  then show ?case unfolding scan_unseen [of first_index c, OF none] by simp
qed

lemma loop_removal_distinct: "distinct (loop_removal trace)"
  by (simp add: loop_removal_spec spec_simplifier_def scan_distinct)

lemma loop_removal_loop_free: "distinct trace \<Longrightarrow> loop_removal trace = trace"
  by (simp add: loop_removal_spec spec_simplifier_def scan_identity)

lemma loop_removal_hd:
  "trace \<noteq> [] \<Longrightarrow> loop_removal trace \<noteq> [] \<and> hd (loop_removal trace) = hd trace"
proof (cases trace)
  case Nil
  assume "trace \<noteq> []"
  with Nil show ?thesis by simp
next
  case (Cons c cs)
  show ?thesis
    using scan_hd [of "[c]" cs "Map.empty(c \<mapsto> 0)"] Cons
    by (simp add: loop_removal_spec spec_simplifier_def)
qed

text \<open>
  C3: the loop removal of \<open>shortest_path\<close> is the left-to-right scan of the
  specification.  One round on an unseen position appends it and records the index it
  now has in the output; one round on a position recorded at index \<open>k\<close> cuts the
  output to its first \<open>k + 1\<close> entries and leaves the recorded indices alone.  The
  whole loop computes the specification's scan, and for four different coordinates
  A, B, C, D the trace [A, B, C, B, D] gives [A, B, D].
\<close>

theorem loop_removal_scan:
  "loop_removal trace = spec_simplifier trace
 \<and> (visited position = None \<longrightarrow>
      loop_removal_step (index, position) (visited, direct_path)
        = (visited(position \<mapsto> length direct_path), direct_path @ [position])
      \<and> (direct_path @ [position]) ! length direct_path = position)
 \<and> (visited position = Some k \<longrightarrow>
      loop_removal_step (index, position) (visited, direct_path)
        = (visited, take (k + 1) direct_path))
 \<and> (distinct [A, B, C, D] \<longrightarrow> loop_removal [A, B, C, B, D] = [A, B, D])"
proof -
  have "distinct [A, B, C, D] \<longrightarrow> loop_removal [A, B, C, B, D] = [A, B, D]"
    by (auto simp add: loop_removal_spec spec_simplifier_def)
  then show ?thesis
    by (simp add: loop_removal_spec loop_removal_step_unseen loop_removal_step_seen)
qed

theorem loop_removal_scan_witness:
  "distinct [(0, 0), (0, 1), (1, 1), (0::int, 2::int)]
 \<and> loop_removal [(0, 0), (0, 1), (1, 1), (0, 1), (0, 2)] = [(0, 0), (0, 1), (0, 2)]
 \<and> loop_removal_step (2, (1, 1)) ([(0, 0) \<mapsto> 0, (0, 1) \<mapsto> 1], [(0, 0), (0, 1)])
     = ([(0, 0) \<mapsto> 0, (0, 1) \<mapsto> 1, (1, 1) \<mapsto> 2], [(0, 0), (0, 1), (1, 1)])
 \<and> loop_removal_step (3, (0, 1))
       ([(0, 0) \<mapsto> 0, (0, 1) \<mapsto> 1, (1, 1) \<mapsto> 2], [(0, 0), (0, 1), (1, 1)])
     = ([(0, 0) \<mapsto> 0, (0, 1) \<mapsto> 1, (1, 1) \<mapsto> 2], [(0, 0), (0, 1)])"
proof -
  have d: "distinct [(0, 0), (0, 1), (1, 1), (0::int, 2::int)]" by simp
  have u: "[(0, 0) \<mapsto> 0, (0, 1) \<mapsto> 1] (1::int, 1::int) = (None :: nat option)" by simp
  have s: "[(0, 0) \<mapsto> 0, (0, 1) \<mapsto> 1, (1, 1) \<mapsto> 2] (0::int, 1::int) = Some (1::nat)"
    by simp
  have e: "loop_removal [(0, 0), (0, 1), (1, 1), (0, 1), (0, 2)] = [(0, 0), (0, 1), (0, 2)]"
    using loop_removal_scan [where A = "(0, 0)" and B = "(0, 1)" and C = "(1, 1)"
        and D = "(0, 2)"] d by blast
  have a: "loop_removal_step (2, (1, 1)) ([(0, 0) \<mapsto> 0, (0, 1) \<mapsto> 1], [(0, 0), (0, 1)])
     = ([(0, 0) \<mapsto> 0, (0, 1) \<mapsto> 1, (1, 1) \<mapsto> 2], [(0, 0), (0, 1), (1, 1)])"
    using loop_removal_scan [where visited = "[(0, 0) \<mapsto> 0, (0, 1) \<mapsto> 1]"
        and position = "(1, 1)" and index = 2 and direct_path = "[(0, 0), (0, 1)]"] u
    by (simp add: numeral_2_eq_2)
  have b: "loop_removal_step (3, (0, 1))
       ([(0, 0) \<mapsto> 0, (0, 1) \<mapsto> 1, (1, 1) \<mapsto> 2], [(0, 0), (0, 1), (1, 1)])
     = ([(0, 0) \<mapsto> 0, (0, 1) \<mapsto> 1, (1, 1) \<mapsto> 2], [(0, 0), (0, 1)])"
    using loop_removal_scan [where visited = "[(0, 0) \<mapsto> 0, (0, 1) \<mapsto> 1, (1, 1) \<mapsto> 2]"
        and position = "(0, 1)" and index = 3 and direct_path = "[(0, 0), (0, 1), (1, 1)]"
        and k = 1] s
    by simp
  show ?thesis using d e a b by simp
qed

text \<open>
  C6: on a trace with no repeated coordinate the loop removal returns the trace itself,
  and running it on its own output returns that output.
\<close>

theorem loop_removal_identity_idempotent:
  "(distinct trace \<longrightarrow> loop_removal trace = trace)
 \<and> loop_removal (loop_removal trace) = loop_removal trace"
  by (simp add: loop_removal_loop_free loop_removal_distinct)

theorem loop_removal_identity_idempotent_witness:
  "distinct [(0, 0), (0, 1), (1::int, 1::int)]
 \<and> loop_removal [(0, 0), (0, 1), (1, 1)] = [(0, 0), (0, 1), (1, 1)]
 \<and> loop_removal (loop_removal [(0, 0), (0, 1), (0, 0), (1, 0)])
     = loop_removal [(0, 0), (0, 1), (0, 0), (1, 0)]"
proof -
  have d: "distinct [(0, 0), (0, 1), (1::int, 1::int)]" by simp
  show ?thesis
    using d loop_removal_identity_idempotent [of "[(0, 0), (0, 1), (1, 1)]"]
      loop_removal_identity_idempotent [of "[(0, 0), (0, 1), (0, 0), (1, 0)]"]
    by blast
qed

section \<open>Unfolding the exploration loop\<close>

lemma explore_loop_at_goal:
  "(get_x r, get_y r) = goal \<Longrightarrow> explore_loop m r goal num actions = Some (Inr (m, r, num, actions))"
  by (subst explore_loop.simps) simp

lemma explore_loop_step:
  "(get_x r, get_y r) \<noteq> goal \<Longrightarrow>
   move (m\<lparr>path := path m @ [(get_x r, get_y r)]\<rparr>) r = Inr (m2, r1, action) \<Longrightarrow>
   prev_runner m2 = Some prev \<Longrightarrow>
   explore_loop m r goal num actions =
     explore_loop
       (m2\<lparr>exploration_data := exploration_data m2 @
             [(str_int (num + 1), str_int (fst prev), str_int (snd prev), action)]\<rparr>)
       r1 goal (num + 1) (actions @ action)"
  by (subst explore_loop.simps) simp

lemma explore_loop_error:
  "(get_x r, get_y r) \<noteq> goal \<Longrightarrow>
   move (m\<lparr>path := path m @ [(get_x r, get_y r)]\<rparr>) r = Inl e \<Longrightarrow>
   explore_loop m r goal num actions = Some (Inl e)"
  by (subst explore_loop.simps) simp

section \<open>Exploration: what a run changes\<close>

lemma move_maze:
  "move m r = Inr (m', r', action) \<Longrightarrow> m' = m\<lparr>prev_runner := Some (get_x r, get_y r)\<rparr>"
  by (auto simp add: move_def Let_def split: sum.splits prod.splits if_splits)

lemma run_extends_refl: "run_extends m m"
  by (simp add: run_extends_def)

lemma run_extends_trans: "run_extends m m1 \<Longrightarrow> run_extends m1 m2 \<Longrightarrow> run_extends m m2"
  by (auto simp add: run_extends_def intro: prefix_order.trans)

lemma run_extends_move:
  "move m r = Inr (m', r', action) \<Longrightarrow> run_extends m m'"
  by (drule move_maze) (simp add: run_extends_def)

lemma explore_loop_extends_aux:
  "explore_loop m r goal num actions = Some res \<Longrightarrow>
   (\<forall>m' r' num' actions'. res = Inr (m', r', num', actions') \<longrightarrow> run_extends m m')"
proof (induction rule: explore_loop.raw_induct [rotated 1, consumes 1])
  case (1 explore_loop0 m r goal num actions res)
  show ?case
  proof (cases "(get_x r, get_y r) = goal")
    case True
    with 1(2) show ?thesis by (auto simp add: run_extends_refl)
  next
    case False
    let ?m1 = "m\<lparr>path := path m @ [(get_x r, get_y r)]\<rparr>"
    show ?thesis
    proof (intro allI impI)
      fix m' r' num' actions'
      assume res: "res = Inr (m', r', num', actions')"
      from False 1(2) res obtain m2 r1 action prev where
        mv: "move ?m1 r = Inr (m2, r1, action)" and
        rec: "explore_loop0
                (m2\<lparr>exploration_data := exploration_data m2 @
                      [(str_int (num + 1), str_int (fst prev), str_int (snd prev), action)]\<rparr>)
                r1 goal (num + 1) (actions @ action) = Some res"
        by (auto simp add: Let_def split: sum.splits prod.splits option.splits)
      have a: "run_extends m ?m1" by (simp add: run_extends_def)
      have b: "run_extends ?m1 m2" using mv by (rule run_extends_move)
      have c: "run_extends m2
         (m2\<lparr>exploration_data := exploration_data m2 @
               [(str_int (num + 1), str_int (fst prev), str_int (snd prev), action)]\<rparr>)"
        by (simp add: run_extends_def)
      have d: "run_extends
         (m2\<lparr>exploration_data := exploration_data m2 @
               [(str_int (num + 1), str_int (fst prev), str_int (snd prev), action)]\<rparr>) m'"
        using 1(1) [OF rec] res by blast
      show "run_extends m m'"
        using a b c d by (blast intro: run_extends_trans)
    qed
  qed
qed

lemma explore_loop_extends:
  "explore_loop m r goal num actions = Some (Inr (m', r', num', actions'))
   \<Longrightarrow> run_extends m m'"
  by (blast dest: explore_loop_extends_aux)

lemma explore_result:
  "explore m r goal = Some (Inr (m', r', actions)) \<Longrightarrow>
   \<exists>m1 num. explore_loop m r goal 0 [] = Some (Inr (m1, r', num, actions))
      \<and> m' = m1\<lparr>path := path m1 @ [(get_x r', get_y r')]\<rparr>"
  by (auto simp add: explore_def split: option.splits sum.splits prod.splits)

lemma explore_extends:
  "explore m r goal = Some (Inr (m', r', actions)) \<Longrightarrow>
   run_extends m m' \<and> path m' \<noteq> [] \<and> last (path m') = (get_x r', get_y r')"
proof -
  assume "explore m r goal = Some (Inr (m', r', actions))"
  then obtain m1 num where
    l: "explore_loop m r goal 0 [] = Some (Inr (m1, r', num, actions))" and
    m': "m' = m1\<lparr>path := path m1 @ [(get_x r', get_y r')]\<rparr>"
    by (blast dest: explore_result)
  have "run_extends m m1" using l by (rule explore_loop_extends)
  moreover have "run_extends m1 m'" using m' by (simp add: run_extends_def)
  ultimately have "run_extends m m'" by (rule run_extends_trans)
  then show ?thesis using m' by simp
qed

lemma shortest_path_result:
  "shortest_path m starting goal = Some (Inr (m', direct_path)) \<Longrightarrow>
   \<exists>r' actions.
      explore m
        (create_runner (fst (case starting of None \<Rightarrow> (0, 0) | Some s \<Rightarrow> s))
           (snd (case starting of None \<Rightarrow> (0, 0) | Some s \<Rightarrow> s)) ''N'')
        (case goal of None \<Rightarrow> (width m - 1, height m - 1) | Some g \<Rightarrow> g)
        = Some (Inr (m', r', actions))
      \<and> direct_path = loop_removal (path m')"
  by (auto simp add: shortest_path_def Let_def split: option.splits sum.splits prod.splits)

lemma shortest_path_extends:
  "shortest_path m starting goal = Some (Inr (m', direct_path)) \<Longrightarrow>
   run_extends m m' \<and> path m' \<noteq> [] \<and> direct_path = loop_removal (path m')"
  by (blast dest: shortest_path_result explore_extends)

section \<open>Start equal to goal\<close>

lemma explore_start_is_goal:
  "explore m (create_runner a b o0) (a, b)
     = Some (Inr (m\<lparr>path := path m @ [(a, b)]\<rparr>, create_runner a b o0, []))"
  by (simp add: explore_def explore_loop_at_goal get_x_def get_y_def create_runner_def)

lemma fold_outer_v_walls:
  fixes m0 :: maze
  shows "width (fold (\<lambda>i m. m\<lparr>v_walls := insert (w, i) (insert (0, i) (v_walls m))\<rparr>) is m0)
      = width m0"
    and "height (fold (\<lambda>i m. m\<lparr>v_walls := insert (w, i) (insert (0, i) (v_walls m))\<rparr>) is m0)
      = height m0"
    and "path (fold (\<lambda>i m. m\<lparr>v_walls := insert (w, i) (insert (0, i) (v_walls m))\<rparr>) is m0)
      = path m0"
    and "exploration_data
           (fold (\<lambda>i m. m\<lparr>v_walls := insert (w, i) (insert (0, i) (v_walls m))\<rparr>) is m0)
      = exploration_data m0"
    and "render_settings
           (fold (\<lambda>i m. m\<lparr>v_walls := insert (w, i) (insert (0, i) (v_walls m))\<rparr>) is m0)
      = render_settings m0"
    and "prev_runner
           (fold (\<lambda>i m. m\<lparr>v_walls := insert (w, i) (insert (0, i) (v_walls m))\<rparr>) is m0)
      = prev_runner m0"
    and "run_id (fold (\<lambda>i m. m\<lparr>v_walls := insert (w, i) (insert (0, i) (v_walls m))\<rparr>) is m0)
      = run_id m0"
    and "h_walls (fold (\<lambda>i m. m\<lparr>v_walls := insert (w, i) (insert (0, i) (v_walls m))\<rparr>) is m0)
      = h_walls m0"
    and "v_walls (fold (\<lambda>i m. m\<lparr>v_walls := insert (w, i) (insert (0, i) (v_walls m))\<rparr>) is m0)
      = v_walls m0 \<union> (\<lambda>i. (w, i)) ` set is \<union> (\<lambda>i. (0, i)) ` set is"
  by (induction "is" arbitrary: m0) auto

lemma fold_outer_h_walls:
  fixes m0 :: maze
  shows "width (fold (\<lambda>i m. m\<lparr>h_walls := insert (i, h) (insert (i, 0) (h_walls m))\<rparr>) is m0)
      = width m0"
    and "height (fold (\<lambda>i m. m\<lparr>h_walls := insert (i, h) (insert (i, 0) (h_walls m))\<rparr>) is m0)
      = height m0"
    and "path (fold (\<lambda>i m. m\<lparr>h_walls := insert (i, h) (insert (i, 0) (h_walls m))\<rparr>) is m0)
      = path m0"
    and "exploration_data
           (fold (\<lambda>i m. m\<lparr>h_walls := insert (i, h) (insert (i, 0) (h_walls m))\<rparr>) is m0)
      = exploration_data m0"
    and "render_settings
           (fold (\<lambda>i m. m\<lparr>h_walls := insert (i, h) (insert (i, 0) (h_walls m))\<rparr>) is m0)
      = render_settings m0"
    and "prev_runner
           (fold (\<lambda>i m. m\<lparr>h_walls := insert (i, h) (insert (i, 0) (h_walls m))\<rparr>) is m0)
      = prev_runner m0"
    and "run_id (fold (\<lambda>i m. m\<lparr>h_walls := insert (i, h) (insert (i, 0) (h_walls m))\<rparr>) is m0)
      = run_id m0"
    and "v_walls (fold (\<lambda>i m. m\<lparr>h_walls := insert (i, h) (insert (i, 0) (h_walls m))\<rparr>) is m0)
      = v_walls m0"
    and "h_walls (fold (\<lambda>i m. m\<lparr>h_walls := insert (i, h) (insert (i, 0) (h_walls m))\<rparr>) is m0)
      = h_walls m0 \<union> (\<lambda>i. (i, h)) ` set is \<union> (\<lambda>i. (i, 0)) ` set is"
  by (induction "is" arbitrary: m0) auto

lemma set_py_range: "set (py_range n) = {0..<n}"
  by (auto simp add: py_range_def)

lemma Maze_init_fields:
  "width (Maze_init w h) = w" "height (Maze_init w h) = h" "path (Maze_init w h) = []"
  "exploration_data (Maze_init w h)
     = [(''Step'', ''x-coordinate'', ''y-coordinate'', ''Actions'')]"
  "render_settings (Maze_init w h) = (False, False, 1)" "prev_runner (Maze_init w h) = None"
  "run_id (Maze_init w h) = []"
  "h_walls (Maze_init w h) = (\<lambda>i. (i, h)) ` {0..<w} \<union> (\<lambda>i. (i, 0)) ` {0..<w}"
  "v_walls (Maze_init w h) = (\<lambda>i. (w, i)) ` {0..<h} \<union> (\<lambda>i. (0, i)) ` {0..<h}"
  by (simp_all add: Maze_init_def Let_def fold_outer_v_walls fold_outer_h_walls set_py_range)

text \<open>
  C9: on a freshly constructed maze of any size, with the start equal to the goal, the
  exploration ends at once: it returns the empty action string, the path is the start
  alone (length 1), the exploration data still hold the header row only (no move), and
  \<open>shortest_path\<close> returns the one-element path.  The last line is the 1 by 1 maze
  with the default start and goal.
\<close>

theorem start_equals_goal_run:
  "explore (Maze_init w h) (create_runner a b ''N'') (a, b)
     = Some (Inr ((Maze_init w h)\<lparr>path := [(a, b)]\<rparr>, create_runner a b ''N'', []))
 \<and> length (path ((Maze_init w h)\<lparr>path := [(a, b)]\<rparr>)) = 1
 \<and> exploration_data ((Maze_init w h)\<lparr>path := [(a, b)]\<rparr>)
     = [(''Step'', ''x-coordinate'', ''y-coordinate'', ''Actions'')]
 \<and> shortest_path (Maze_init w h) (Some (a, b)) (Some (a, b))
     = Some (Inr ((Maze_init w h)\<lparr>path := [(a, b)]\<rparr>, [(a, b)]))
 \<and> shortest_path (Maze_init 1 1) None None
     = Some (Inr ((Maze_init 1 1)\<lparr>path := [(0, 0)]\<rparr>, [(0, 0)]))"
  by (simp add: shortest_path_def Let_def explore_start_is_goal Maze_init_fields
      loop_removal_spec spec_simplifier_def)

section \<open>Two runs on one maze\<close>

lemma move_corridor_1_2:
  assumes "h_walls m = {(0, 2), (0, 0)}" "v_walls m = {(1, 1), (0, 1), (1, 0), (0, 0)}"
  shows "move m (create_runner 0 0 ''N'')
     = Inr (m\<lparr>prev_runner := Some (0, 0)\<rparr>, create_runner 0 1 ''N'', ''F'')"
proof -
  have o: "orientation (create_runner 0 0 ''N'') = ''N''" by (simp add: create_runner_def)
  have g: "get_walls m (x (create_runner 0 0 ''N'')) (y (create_runner 0 0 ''N''))
      = (False, True, True, True)"
    using assms by (simp add: get_walls_def create_runner_def)
  show ?thesis
    using move_N [OF o g]
    by (simp add: forward_def get_orientation_def create_runner_def)
qed

lemma explore_corridor_1_2:
  assumes "h_walls m = {(0, 2), (0, 0)}" "v_walls m = {(1, 1), (0, 1), (1, 0), (0, 0)}"
  shows "explore m (create_runner 0 0 ''N'') (0, 1)
     = Some (Inr (m\<lparr>path := path m @ [(0, 0), (0, 1)],
                    exploration_data := exploration_data m @ [(''1'', ''0'', ''0'', ''F'')],
                    prev_runner := Some (0, 0)\<rparr>,
                  create_runner 0 1 ''N'', ''F''))"
proof -
  let ?r = "create_runner 0 0 ''N''"
  let ?m1 = "m\<lparr>path := path m @ [(get_x ?r, get_y ?r)]\<rparr>"
  have xy: "get_x ?r = 0" "get_y ?r = 0"
    by (simp_all add: get_x_def get_y_def create_runner_def)
  have mv: "move ?m1 ?r = Inr (?m1\<lparr>prev_runner := Some (0, 0)\<rparr>, create_runner 0 1 ''N'', ''F'')"
    using assms by (intro move_corridor_1_2) simp_all
  have ne: "(get_x ?r, get_y ?r) \<noteq> (0, 1)" using xy by simp
  have s: "str_int 1 = ''1''" "str_int 0 = ''0''"
    by (simp_all add: str_int_def str_nat.simps)
  have xy1: "get_x (create_runner 0 1 ''N'') = 0" "get_y (create_runner 0 1 ''N'') = 1"
    by (simp_all add: get_x_def get_y_def create_runner_def)
  have g: "(get_x (create_runner 0 1 ''N''), get_y (create_runner 0 1 ''N'')) = (0, 1)"
    using xy1 by simp
  show ?thesis
    unfolding explore_def
    using explore_loop_step [OF ne mv, where prev = "(0, 0)" and num = 0 and actions = "[]"]
    by (simp add: explore_loop_at_goal [OF g] xy xy1 s)
qed

lemma shortest_path_corridor_1_2:
  assumes "h_walls m = {(0, 2), (0, 0)}" "v_walls m = {(1, 1), (0, 1), (1, 0), (0, 0)}"
    "width m = 1" "height m = 2"
  shows "shortest_path m None None
     = Some (Inr (m\<lparr>path := path m @ [(0, 0), (0, 1)],
                    exploration_data := exploration_data m @ [(''1'', ''0'', ''0'', ''F'')],
                    prev_runner := Some (0, 0)\<rparr>,
                  loop_removal (path m @ [(0, 0), (0, 1)])))"
  using assms by (simp add: shortest_path_def Let_def explore_corridor_1_2)

text \<open>
  C4, on the code: the loop removal does not always end at the last coordinate of its
  trace.  A maze one cell wide and two high is solved once, from (0, 0) to (0, 1), and
  the result is the path [(0, 0), (0, 1)].  Solving the same maze object again appends
  the second trace to the first, and the result is [(0, 0)], which does not end at the
  goal: when (0, 0) comes back the output is cut to its first entry, the index stored
  for (0, 1) stays 1, and the last round slices the one-element output at 2 instead of
  appending.
\<close>

theorem second_run_path_misses_goal:
  "\<exists>m1 m2.
     shortest_path (Maze_init 1 2) None None = Some (Inr (m1, [(0, 0), (0, 1)]))
   \<and> path m1 = [(0, 0), (0, 1)]
   \<and> shortest_path m1 None None = Some (Inr (m2, [(0, 0)]))
   \<and> path m2 = [(0, 0), (0, 1), (0, 0), (0, 1)]
   \<and> loop_removal [(0, 0), (0, 1), (0, 0), (0, 1)] = [(0, 0)]
   \<and> last (loop_removal [(0, 0), (0, 1), (0, 0), (0, 1)])
        \<noteq> last [(0, 0), (0, 1), (0, 0), (0, 1)]"
proof -
  let ?m1 = "(Maze_init 1 2)\<lparr>path := path (Maze_init 1 2) @ [(0, 0), (0, 1)],
      exploration_data := exploration_data (Maze_init 1 2) @ [(''1'', ''0'', ''0'', ''F'')],
      prev_runner := Some (0, 0)\<rparr>"
  let ?m2 = "?m1\<lparr>path := path ?m1 @ [(0, 0), (0, 1)],
      exploration_data := exploration_data ?m1 @ [(''1'', ''0'', ''0'', ''F'')],
      prev_runner := Some (0, 0)\<rparr>"
  have lr: "loop_removal [(0, 0), (0, 1), (0, 0), (0, 1)] = [(0, 0)]"
    by (simp add: loop_removal_spec spec_simplifier_def)
  have lr1: "loop_removal [(0, 0), (0, 1)] = [(0, 0), (0, 1)]"
    by (simp add: loop_removal_spec spec_simplifier_def)
  have 1: "shortest_path (Maze_init 1 2) None None = Some (Inr (?m1, [(0, 0), (0, 1)]))"
    using shortest_path_corridor_1_2 [of "Maze_init 1 2"] lr1
    by (simp add: Maze_init_1_2)
  have 2: "shortest_path ?m1 None None = Some (Inr (?m2, [(0, 0)]))"
    using shortest_path_corridor_1_2 [of ?m1] lr
    by (simp add: Maze_init_1_2)
  have p1: "path ?m1 = [(0, 0), (0, 1)]" by (simp add: Maze_init_1_2)
  have p2: "path ?m2 = [(0, 0), (0, 1), (0, 0), (0, 1)]" by (simp add: Maze_init_1_2)
  show ?thesis
    using 1 2 p1 p2 lr by (intro exI [of _ ?m1] exI [of _ ?m2]) simp
qed

section \<open>The outer walls\<close>

lemma outer_walls_run_extends:
  "outer_walls w h m \<Longrightarrow> run_extends m m' \<Longrightarrow> outer_walls w h m'"
  by (simp add: outer_walls_def run_extends_def)

lemma after_operations_outer_walls:
  "after_operations w h m \<Longrightarrow> outer_walls w h m"
proof (induction rule: after_operations.induct)
  case constructed
  show ?case by (auto simp add: outer_walls_def Maze_init_fields)
next
  case (horizontal_wall m a l)
  then show ?case by (auto simp add: outer_walls_def add_horizontal_wall_def)
next
  case (vertical_wall m b k)
  then show ?case by (auto simp add: outer_walls_def add_vertical_wall_def)
next
  case (path_set m path0)
  then show ?case by (simp add: outer_walls_def set_path_def)
next
  case (exploration_data_set m data0)
  then show ?case by (simp add: outer_walls_def set_exploration_data_def)
next
  case (render_settings_set m settings)
  then show ?case by (simp add: outer_walls_def)
next
  case (run_id_set m run_id0)
  then show ?case by (simp add: outer_walls_def)
next
  case (moved m r m' r' action)
  from moved.hyps(2) have "run_extends m m'" by (rule run_extends_move)
  with moved.IH show ?case by (rule outer_walls_run_extends)
next
  case (explored m r goal m' r' actions)
  from explored.hyps(2) have "run_extends m m'" by (blast dest: explore_extends)
  with explored.IH show ?case by (rule outer_walls_run_extends)
next
  case (solved m starting goal m' direct_path)
  from solved.hyps(2) have "run_extends m m'" by (blast dest: shortest_path_extends)
  with solved.IH show ?case by (rule outer_walls_run_extends)
qed

text \<open>
  C7: for a maze built with width \<open>w\<close> and height \<open>h\<close> (of any size, so also for
  every width and height of at least 1), after the constructor and after every further
  operation the horizontal walls on lines 0 and \<open>h\<close> are there for every column
  \<open>0 \<le> i < w\<close> and the vertical walls on lines 0 and \<open>w\<close> for every row
  \<open>0 \<le> j < h\<close>; and a wall insertion with an argument out of range (the coordinate
  outside \<open>[0, w)\<close> resp. \<open>[0, h)\<close>, or the line outside the inner lines
  \<open>[1, h)\<close> resp. \<open>[1, w)\<close>) returns the maze as it was, wall sets included.
  The insertions are total functions: there is no error they could raise.
\<close>

theorem outer_walls_always_present:
  assumes "after_operations w h m"
  shows "(\<forall>i\<in>{0..<w}. (i, 0) \<in> h_walls m \<and> (i, h) \<in> h_walls m)
    \<and> (\<forall>j\<in>{0..<h}. (0, j) \<in> v_walls m \<and> (w, j) \<in> v_walls m)
    \<and> (\<not> (0 \<le> a \<and> a < w \<and> 1 \<le> l \<and> l < h) \<longrightarrow> add_horizontal_wall m a l = m)
    \<and> (\<not> (0 \<le> b \<and> b < h \<and> 1 \<le> k \<and> k < w) \<longrightarrow> add_vertical_wall m b k = m)"
  using after_operations_outer_walls [OF assms]
  by (auto simp add: outer_walls_def add_horizontal_wall_def add_vertical_wall_def)

theorem outer_walls_always_present_witness:
  "after_operations 2 2 (add_horizontal_wall (Maze_init 2 2) 0 1)
 \<and> (1, 0) \<in> h_walls (add_horizontal_wall (Maze_init 2 2) 0 1)
 \<and> (1, 2) \<in> h_walls (add_horizontal_wall (Maze_init 2 2) 0 1)
 \<and> (0, 1) \<in> v_walls (add_horizontal_wall (Maze_init 2 2) 0 1)
 \<and> (2, 1) \<in> v_walls (add_horizontal_wall (Maze_init 2 2) 0 1)
 \<and> add_horizontal_wall (add_horizontal_wall (Maze_init 2 2) 0 1) 2 1
     = add_horizontal_wall (Maze_init 2 2) 0 1
 \<and> add_horizontal_wall (add_horizontal_wall (Maze_init 2 2) 0 1) 0 2
     = add_horizontal_wall (Maze_init 2 2) 0 1
 \<and> add_vertical_wall (add_horizontal_wall (Maze_init 2 2) 0 1) (- 1) 1
     = add_horizontal_wall (Maze_init 2 2) 0 1
 \<and> add_vertical_wall (add_horizontal_wall (Maze_init 2 2) 0 1) 0 0
     = add_horizontal_wall (Maze_init 2 2) 0 1"
proof -
  let ?m = "add_horizontal_wall (Maze_init 2 2) 0 1"
  have r: "after_operations 2 2 ?m"
    by (intro after_operations.horizontal_wall after_operations.constructed)
  have i: "(1::int) \<in> {0..<2}" by simp
  from outer_walls_always_present [OF r, of 2 1 "- 1" 1] i
  have "(1, 0) \<in> h_walls ?m" "(1, 2) \<in> h_walls ?m" "(0, 1) \<in> v_walls ?m"
    "(2, 1) \<in> v_walls ?m" "add_horizontal_wall ?m 2 1 = ?m" "add_vertical_wall ?m (- 1) 1 = ?m"
    by auto
  moreover from outer_walls_always_present [OF r, of 0 2 0 0]
  have "add_horizontal_wall ?m 0 2 = ?m" "add_vertical_wall ?m 0 0 = ?m"
    by auto
  ultimately show ?thesis using r by simp
qed

section \<open>The trace and the exploration data across runs\<close>

lemma explore_path_grows:
  "explore m r goal = Some (Inr (m', r', actions)) \<Longrightarrow> length (path m) < length (path m')"
proof -
  assume "explore m r goal = Some (Inr (m', r', actions))"
  then obtain m1 num where
    l: "explore_loop m r goal 0 [] = Some (Inr (m1, r', num, actions))" and
    m': "m' = m1\<lparr>path := path m1 @ [(get_x r', get_y r')]\<rparr>"
    by (blast dest: explore_result)
  have "prefix (path m) (path m1)"
    using explore_loop_extends [OF l] by (simp add: run_extends_def)
  then have "length (path m) \<le> length (path m1)" by (rule prefix_length_le)
  then show ?thesis using m' by simp
qed

lemma first_run:
  "shortest_path (Maze_init 1 2) None None = Some (Inr (once_solved, [(0, 0), (0, 1)]))"
  using shortest_path_corridor_1_2 [of "Maze_init 1 2"]
  by (simp add: Maze_init_1_2 once_solved_def loop_removal_spec spec_simplifier_def)

lemma second_run:
  "shortest_path once_solved None None = Some (Inr (twice_solved, [(0, 0)]))"
  using shortest_path_corridor_1_2 [of once_solved]
  by (simp add: Maze_init_1_2 once_solved_def twice_solved_def loop_removal_spec
      spec_simplifier_def)

text \<open>
  C10 (as amended): the path and the exploration data are set up by the constructor
  (empty path, header row only) and no method that does the maze's work clears them:
  the wall insertions and \<open>move\<close> leave both as they are, \<open>explore\<close> and
  \<open>shortest_path\<close> only append to them (the path gets strictly longer), and the loop
  removal of \<open>shortest_path\<close> runs over the whole stored path, which begins with
  whatever earlier runs left there.  Apart from constructing a new maze, only the two
  property setters, by which the caller assigns a list of its choice, replace them.
\<close>

theorem buffers_only_grow:
  "path (Maze_init w h) = []
 \<and> exploration_data (Maze_init w h)
     = [(''Step'', ''x-coordinate'', ''y-coordinate'', ''Actions'')]
 \<and> path (add_horizontal_wall m a l) = path m
 \<and> exploration_data (add_horizontal_wall m a l) = exploration_data m
 \<and> path (add_vertical_wall m b k) = path m
 \<and> exploration_data (add_vertical_wall m b k) = exploration_data m
 \<and> (\<forall>m' r' action. move m r = Inr (m', r', action)
       \<longrightarrow> path m' = path m \<and> exploration_data m' = exploration_data m)
 \<and> (\<forall>m' r' actions. explore m r goal = Some (Inr (m', r', actions))
       \<longrightarrow> prefix (path m) (path m') \<and> length (path m) < length (path m')
         \<and> prefix (exploration_data m) (exploration_data m'))
 \<and> (\<forall>m' direct_path. shortest_path m starting goal0 = Some (Inr (m', direct_path))
       \<longrightarrow> prefix (path m) (path m') \<and> length (path m) < length (path m')
         \<and> prefix (exploration_data m) (exploration_data m')
         \<and> direct_path = loop_removal (path m'))
 \<and> path (set_path m path0) = path0
 \<and> exploration_data (set_exploration_data m data0) = data0"
proof -
  have mv: "\<forall>m' r' action. move m r = Inr (m', r', action)
       \<longrightarrow> path m' = path m \<and> exploration_data m' = exploration_data m"
    by (auto dest: move_maze)
  have ex: "\<forall>m' r' actions. explore m r goal = Some (Inr (m', r', actions))
       \<longrightarrow> prefix (path m) (path m') \<and> length (path m) < length (path m')
         \<and> prefix (exploration_data m) (exploration_data m')"
    using explore_extends [of m r goal] explore_path_grows [of m r goal]
    by (simp add: run_extends_def)
  have sp: "\<forall>m' direct_path. shortest_path m starting goal0 = Some (Inr (m', direct_path))
       \<longrightarrow> prefix (path m) (path m') \<and> length (path m) < length (path m')
         \<and> prefix (exploration_data m) (exploration_data m')
         \<and> direct_path = loop_removal (path m')"
  proof (intro allI impI)
    fix m' direct_path
    assume a: "shortest_path m starting goal0 = Some (Inr (m', direct_path))"
    from shortest_path_result [OF a] obtain r' actions r0 g0 where
      e: "explore m r0 g0 = Some (Inr (m', r', actions))" and
      d: "direct_path = loop_removal (path m')"
      by blast
    from explore_extends [OF e] explore_path_grows [OF e] d
    show "prefix (path m) (path m') \<and> length (path m) < length (path m')
         \<and> prefix (exploration_data m) (exploration_data m')
         \<and> direct_path = loop_removal (path m')"
      by (simp add: run_extends_def)
  qed
  show ?thesis
    using mv ex sp
    by (simp add: Maze_init_fields add_horizontal_wall_def add_vertical_wall_def
        set_path_def set_exploration_data_def)
qed

theorem buffers_only_grow_witness:
  "shortest_path once_solved None None = Some (Inr (twice_solved, [(0, 0)]))
 \<and> path once_solved = [(0, 0), (0, 1)]
 \<and> prefix (path once_solved) (path twice_solved)
 \<and> length (path once_solved) < length (path twice_solved)
 \<and> prefix (exploration_data once_solved) (exploration_data twice_solved)
 \<and> loop_removal (path twice_solved) = [(0, 0)]"
proof -
  have p: "path once_solved = [(0, 0), (0, 1)]" by (simp add: once_solved_def)
  from buffers_only_grow [where m = once_solved and starting = None and ?goal0.0 = None]
    second_run
  have "prefix (path once_solved) (path twice_solved)
      \<and> length (path once_solved) < length (path twice_solved)
      \<and> prefix (exploration_data once_solved) (exploration_data twice_solved)
      \<and> [(0, 0)] = loop_removal (path twice_solved)"
    by blast
  then show ?thesis using second_run p by simp
qed

text \<open>
  The claim as first stated fails at the path setter: assigning the empty list to the
  path of a maze that has been solved once leaves an empty trace, with no new maze
  constructed.
\<close>

theorem path_setter_counterexample:
  "shortest_path (Maze_init 1 2) None None = Some (Inr (once_solved, [(0, 0), (0, 1)]))
 \<and> path once_solved = [(0, 0), (0, 1)]
 \<and> path (set_path once_solved []) = []"
  using first_run by (simp add: once_solved_def set_path_def)

end
